theory Spec2Isabelle
  imports Complex_Main "HOL-Library.Word"
begin

section \<open>Visualisation helpers of the integrated-gradients baselines repository\<close>

text \<open>
  A shallow embedding of \<^verbatim>\<open>src/visualization.py\<close>. Array elements are real numbers
  (NaN and infinities are outside the model, and \<^verbatim>\<open>float\<close> rounding is not modelled).
  Calls into matplotlib and seaborn are recorded as a list of \<open>render_call\<close>s in the
  order the source makes them; the renderer is taken to accept every call (a failure
  inside the renderer, such as a subplot grid of zero rows, is outside the model). Arguments
  that only feed titles (\<^verbatim>\<open>prediction\<close>, \<^verbatim>\<open>model_str\<close>, \<^verbatim>\<open>version_ig\<close>,
  \<^verbatim>\<open>sentence\<close>, \<^verbatim>\<open>ablation_str\<close>, \<^verbatim>\<open>num_examples\<close>, \<^verbatim>\<open>baseline_str\<close>) never reach a
  branch or an index and are left out. An exception raised by Python or NumPy ends the
  call: the model returns the calls made so far together with the error.
\<close>

subsection \<open>Errors and NumPy indexing\<close>

datatype py_error = IndexError | ValueError

text \<open>\<^verbatim>\<open>a[i]\<close> for an integer \<open>i\<close>: a negative index counts from the end.\<close>

definition np_index :: "'a list \<Rightarrow> int \<Rightarrow> py_error + 'a" where
  "np_index a i =
     (let n = int (length a);
          j = (if i < 0 then i + n else i)
      in if 0 \<le> j \<and> j < n then Inr (a ! nat j) else Inl IndexError)"

text \<open>\<^verbatim>\<open>a[idx]\<close> for an integer array \<open>idx\<close>: one lookup per index, all or nothing.\<close>

fun np_take :: "'a list \<Rightarrow> int list \<Rightarrow> py_error + 'a list" where
  "np_take a [] = Inr []"
| "np_take a (i # idx) =
     (case np_index a i of
        Inl e \<Rightarrow> Inl e
      | Inr v \<Rightarrow> (case np_take a idx of Inl e \<Rightarrow> Inl e | Inr vs \<Rightarrow> Inr (v # vs)))"

subsection \<open>Renderer calls\<close>

text \<open>The \<open>k\<close>-th of \<open>n\<close> evenly spaced samples of the colormap \<^verbatim>\<open>summer\<close>.\<close>

datatype colour = Summer nat nat

text \<open>\<^verbatim>\<open>sns.color_palette("summer", n)\<close>.\<close>

definition color_palette :: "nat \<Rightarrow> colour list" where
  "color_palette n = map (\<lambda>k. Summer k n) [0..<n]"

text \<open>
  \<^verbatim>\<open>pathlib\<close> paths on a POSIX system, after its documentation: a path is absolute
  or relative and has a list of components. \<^verbatim>\<open>Path(s)\<close> splits \<open>s\<close> at the slashes
  and drops empty components and \<open>.\<close> components (\<open>..\<close> is kept); it is absolute when
  \<open>s\<close> starts with a slash. \<^verbatim>\<open>a / b\<close> appends the components of a relative \<open>b\<close> to
  \<open>a\<close>, and is \<open>b\<close> itself when \<open>b\<close> is absolute.
\<close>

datatype path = PosixPath (is_absolute: bool) (parts: "string list")

text \<open>\<^verbatim>\<open>s.split("/")\<close>.\<close>

fun split_slash :: "string \<Rightarrow> string list" where
  "split_slash [] = [[]]"
| "split_slash (c # cs) =
     (if c = CHR ''/'' then [] # split_slash cs
      else (case split_slash cs of [] \<Rightarrow> [[c]] | p # ps \<Rightarrow> (c # p) # ps))"

definition Path :: "string \<Rightarrow> path" where
  "Path s =
     PosixPath (case s of [] \<Rightarrow> False | c # cs \<Rightarrow> c = CHR ''/'')
       (filter (\<lambda>p. p \<noteq> [] \<and> p \<noteq> ''.'') (split_slash s))"

definition path_div :: "path \<Rightarrow> path \<Rightarrow> path" where
  "path_div a b =
     (if is_absolute b then b else PosixPath (is_absolute a) (parts a @ parts b))"

text \<open>
  A path lies under the directory \<open>d\<close> of the working directory when it is relative,
  its first component is \<open>d\<close>, something follows, and no later component is \<open>..\<close>.
\<close>

definition under_directory :: "string \<Rightarrow> path \<Rightarrow> bool" where
  "under_directory d p =
     (\<not> is_absolute p \<and>
      (case parts p of [] \<Rightarrow> False | x # rest \<Rightarrow> x = d \<and> rest \<noteq> [] \<and> ''..'' \<notin> set rest))"

type_synonym point = "real \<times> real"

record distribution_summary =
  r_min :: real
  r_max :: real
  r_mu :: real
  r_sigma :: real
  r_top :: real
  r_bot :: real
  r_soft_top :: real
  r_soft_bot :: real
  r_count :: nat
  r_pct :: real

datatype render_call =
    Subplots nat nat
  | Inset_axes
  | Barplot nat "real list" "colour list"
  | Set_xticks "real list"
  | Set_xticklabels "string list"
  | Set_xlabel
  | Set_ylabel
  | Colorbar
  | Fig_text
  | Suptitle
  | Title
  | Legend
  | Tight_layout
  | Print_report distribution_summary
  | Axvline real
  | Hist "real list" nat
  | Scatter "point list"
  | Plot "point list"
  | Annotate string point
  | Axis_off
  | Table "string list list"
  | Savefig path
  | Show

type_synonym run = "render_call list \<times> py_error option"

subsection \<open>Saving or showing the figure\<close>

text \<open>\<^verbatim>\<open>s.endswith(suffix)\<close>.\<close>

definition endswith :: "string \<Rightarrow> string \<Rightarrow> bool" where
  "endswith s suf = (length suf \<le> length s \<and> drop (length s - length suf) s = suf)"

text \<open>
  The closing block shared, line for line, by \<^verbatim>\<open>visualize_attrs\<close>,
  \<^verbatim>\<open>visualize_ablation_scores\<close>, \<^verbatim>\<open>visualize_word_paths\<close>, \<^verbatim>\<open>visualize_word_path\<close>
  and \<^verbatim>\<open>visualize_word_path_table\<close>:
  \<^verbatim>\<open>
    if save_str is not None:
        if not save_str.endswith(".png"):
            save_str += ".png"
        plt.savefig(Path("figures") / Path(save_str))
    else:
        plt.show()
  \<close>
\<close>

definition save_or_show :: "string option \<Rightarrow> render_call list" where
  "save_or_show save_str =
     (case save_str of
        Some s \<Rightarrow>
          (let s' = (if \<not> endswith s ''.png'' then s @ ''.png'' else s)
           in [Savefig (path_div (Path ''figures'') (Path s'))])
      | None \<Rightarrow> [Show])"

subsection \<open>Attribution bar charts\<close>

text \<open>Position of the first occurrence of \<open>v\<close> in a list (its length when absent).\<close>

fun first_pos :: "'a \<Rightarrow> 'a list \<Rightarrow> nat" where
  "first_pos v [] = 0"
| "first_pos v (y # ys) = (if y = v then 0 else Suc (first_pos v ys))"

text \<open>
  \<^verbatim>\<open>df.rank(axis=0, method="min", ascending=False)["attr"]\<close>, after pandas' documentation:
  the values are ordered from the largest to the smallest, a value's rank is its 1-based
  place in that order, and a group of equal values takes the lowest place of the group.
\<close>

definition df_rank :: "real list \<Rightarrow> nat list" where
  "df_rank attrs = map (\<lambda>x. Suc (first_pos x (rev (sort attrs)))) attrs"

text \<open>
  \<^verbatim>\<open>.to_numpy(dtype=np.int8)\<close>: the rank, a whole number held in a float64, is converted
  to a signed 8-bit integer. A value beyond 127 does not fit; the conversion NumPy
  performs on the common platforms keeps its low eight bits, which is what the word
  type does.
\<close>

definition to_int8 :: "nat \<Rightarrow> 8 word" where
  "to_int8 r = word_of_nat r"

definition rank :: "real list \<Rightarrow> 8 word list" where
  "rank attrs = map to_int8 (df_rank attrs)"

text \<open>The body of the loop over \<^verbatim>\<open>bl_attrs.items()\<close>, row \<open>i\<close> first.\<close>

fun attr_rows :: "colour list \<Rightarrow> string list \<Rightarrow> nat \<Rightarrow> (string \<times> real list) list \<Rightarrow> run" where
  "attr_rows pal token_words i [] = ([], None)"
| "attr_rows pal token_words i ((bl_name, attrs) # rest) =
     (case np_take pal (map sint (rank attrs)) of
        Inl e \<Rightarrow> ([], Some e)
      | Inr palette \<Rightarrow>
          (let (more, err) = attr_rows pal token_words (Suc i) rest
           in ([Barplot i attrs palette,
                Set_xticks (map real [0..<length token_words]),
                Set_xticklabels token_words,
                Set_ylabel] @ more, err)))"

text \<open>
  \<^verbatim>\<open>visualize_attrs\<close>. The grid \<^verbatim>\<open>axs\<close> has one row per entry of \<^verbatim>\<open>bl_attrs\<close> (the rows
  are numbered here); the read \<^verbatim>\<open>axs[0, 0]\<close> for the inset axes raises when there is no
  row.
\<close>

definition visualize_attrs :: "(string \<times> real list) list \<Rightarrow> string list \<Rightarrow> string option \<Rightarrow> run" where
  "visualize_attrs bl_attrs token_words save_str =
     (let num_bbs = length bl_attrs;
          axs = [0..<num_bbs]
      in case np_index axs 0 of
           Inl e \<Rightarrow> ([Subplots num_bbs 1], Some e)
         | Inr ax0 \<Rightarrow>
             (let pal = color_palette (length token_words);
                  (rows, err) = attr_rows pal token_words 0 bl_attrs
              in case err of
                   Some e \<Rightarrow> ([Subplots num_bbs 1, Inset_axes] @ rows, Some e)
                 | None \<Rightarrow>
                     ([Subplots num_bbs 1, Inset_axes] @ rows @ [Colorbar, Fig_text, Suptitle]
                        @ save_or_show save_str, None)))"

subsection \<open>Embedding histogram\<close>

text \<open>\<^verbatim>\<open>np.mean\<close> and \<^verbatim>\<open>np.std\<close> (with its default \<^verbatim>\<open>ddof=0\<close>).\<close>

definition np_mean :: "real list \<Rightarrow> real" where
  "np_mean a = sum_list a / real (length a)"

definition np_std :: "real list \<Rightarrow> real" where
  "np_std a = sqrt (np_mean (map (\<lambda>x. \<bar>x - np_mean a\<bar>\<^sup>2) a))"

text \<open>
  Python's \<^verbatim>\<open>round(x)\<close> with one argument: the nearest integer, a tie going to the even
  one.
\<close>

definition py_round :: "real \<Rightarrow> int" where
  "py_round x =
     (let f = \<lfloor>x\<rfloor>; d = x - of_int f
      in if d < 1 / 2 then f else if 1 / 2 < d then f + 1 else if even f then f else f + 1)"

text \<open>
  \<^verbatim>\<open>embedding_histogram\<close> on the flattened array; the tensor's \<^verbatim>\<open>flatten\<close>,
  \<^verbatim>\<open>detach\<close> and \<^verbatim>\<open>cpu\<close> only hand the numbers over. The two reads of the sorted
  array are the only places that can raise, and they come before the first print. The
  summary holds the values the report prints.
\<close>

definition embedding_histogram :: "real list \<Rightarrow> render_call list \<times> (py_error + distribution_summary)" where
  "embedding_histogram flattened =
     (let mu = np_mean flattened;
          sigma = np_std flattened;
          top = mu + 2.58 * sigma;
          bot = mu - 2.58 * sigma;
          count = sum_list (map (\<lambda>x. if bot < x \<and> x < top then 1 else 0) flattened);
          flattened_sorted = sort flattened;
          n_outliers = py_round (real (length flattened) * 0.001)
      in case np_index flattened_sorted n_outliers of
           Inl e \<Rightarrow> ([], Inl e)
         | Inr soft_top \<Rightarrow>
             (case np_index flattened_sorted (- n_outliers) of
                Inl e \<Rightarrow> ([], Inl e)
              | Inr soft_bot \<Rightarrow>
                  (let s = \<lparr>r_min = Min (set flattened), r_max = Max (set flattened),
                            r_mu = mu, r_sigma = sigma, r_top = top, r_bot = bot,
                            r_soft_top = soft_top, r_soft_bot = soft_bot,
                            r_count = count,
                            r_pct = (100 * real count) / real (length flattened)\<rparr>
                   in ([Print_report s, Subplots 1 1, Axvline mu, Axvline soft_top,
                        Axvline soft_bot, Axvline top, Axvline bot,
                        Hist flattened 1000, Tight_layout, Show], Inr s))))"

subsection \<open>Ablation curves and the embedding scatter plot\<close>

definition visualize_ablation_scores :: "(string \<times> (real \<times> real) list) list \<Rightarrow> string option \<Rightarrow> run" where
  "visualize_ablation_scores avg_scores save_str =
     (let lines = map (\<lambda>(bl_name, scores). Plot scores) avg_scores
      in case avg_scores of
           [] \<Rightarrow> ([Subplots 1 1] @ lines, Some IndexError)
         | (bl_name, scores) # rest \<Rightarrow>
             ([Subplots 1 1] @ lines
                @ [Set_xticks (map fst scores), Set_xlabel, Set_ylabel, Legend, Suptitle]
                @ save_or_show save_str, None))"

text \<open>
  \<^verbatim>\<open>visualize_embedding_space\<close> has no \<^verbatim>\<open>save_str\<close> parameter. The projector
  \<^verbatim>\<open>pca.transform\<close> is a parameter, applied row by row.
\<close>

definition visualize_embedding_space ::
  "real list list \<Rightarrow> (real list \<Rightarrow> point) \<Rightarrow> (string \<times> real list) list \<Rightarrow> render_call list" where
  "visualize_embedding_space word_emb pca interesting_embs =
     [Subplots 1 1, Scatter (map pca word_emb)]
       @ map (\<lambda>(word, emb). Annotate word (pca emb)) interesting_embs
       @ [Set_xlabel, Set_ylabel, Title,
          Savefig (Path ''figures/pca_embedding_space.png''), Show]"

subsection \<open>Interpolation paths\<close>

text \<open>
  The annotation loop of \<^verbatim>\<open>visualize_word_path\<close> and \<^verbatim>\<open>visualize_word_paths\<close>:
  \<^verbatim>\<open>
    last_word = None
    for i, word in enumerate(words):
        if word != last_word:
            ax.annotate(word, (emb[i, 0], emb[i, 1]))
            last_word = word
  \<close>
  with \<open>last_word\<close> and \<open>i\<close> as arguments. Reading row \<open>i\<close> of a shorter array raises.
\<close>

fun annotate_loop :: "point list \<Rightarrow> string option \<Rightarrow> nat \<Rightarrow> string list \<Rightarrow> run" where
  "annotate_loop emb last_word i [] = ([], None)"
| "annotate_loop emb last_word i (word # words) =
     (if Some word \<noteq> last_word then
        (case np_index emb (int i) of
           Inl e \<Rightarrow> ([], Some e)
         | Inr p \<Rightarrow>
             (let (more, err) = annotate_loop emb (Some word) (Suc i) words
              in (Annotate word p # more, err)))
      else annotate_loop emb last_word (Suc i) words)"

definition visualize_word_path ::
  "real list list \<Rightarrow> real list list \<Rightarrow> string list \<Rightarrow> (real list \<Rightarrow> point) \<Rightarrow> string option \<Rightarrow> run" where
  "visualize_word_path word_path_emb word_path_discretized_emb word_path pca save_str =
     (let emb = map pca word_path_emb;
          disc = map pca word_path_discretized_emb;
          (notes, err) = annotate_loop disc None 0 word_path;
          drawn = [Subplots 1 1, Plot emb, Plot disc, Legend, Title, Set_xlabel, Set_ylabel]
      in case err of
           Some e \<Rightarrow> (drawn @ notes, Some e)
         | None \<Rightarrow> (drawn @ notes @ save_or_show save_str, None))"

text \<open>The loop over \<^verbatim>\<open>zip(word_path_emb, word_path_discretized_emb, word_path)\<close>.\<close>

fun word_path_rows ::
  "(real list \<Rightarrow> point) \<Rightarrow> real list list list \<Rightarrow> real list list list \<Rightarrow> string list list \<Rightarrow> run" where
  "word_path_rows pca (path # paths) (disc_path # disc_paths) (words # wordss) =
     (if words = [] then ([], Some IndexError)
      else
        (let path_pca = map pca path;
             disc_path_pca = map pca disc_path;
             (notes, err) = annotate_loop disc_path_pca None 0 words
         in case err of
              Some e \<Rightarrow> ([Plot path_pca, Plot disc_path_pca] @ notes, Some e)
            | None \<Rightarrow>
                (let (more, err') = word_path_rows pca paths disc_paths wordss
                 in ([Plot path_pca, Plot disc_path_pca] @ notes @ more, err'))))"
| "word_path_rows pca _ _ _ = ([], None)"

definition visualize_word_paths ::
  "real list list list \<Rightarrow> real list list list \<Rightarrow> string list list \<Rightarrow> real list list \<Rightarrow>
   (real list \<Rightarrow> point) \<Rightarrow> string option \<Rightarrow> run" where
  "visualize_word_paths word_path_emb word_path_discretized_emb word_path cloud_emb pca save_str =
     (let (rows, err) = word_path_rows pca word_path_emb word_path_discretized_emb word_path;
          cloud = [Subplots 1 1, Scatter (map pca cloud_emb)]
      in case err of
           Some e \<Rightarrow> (cloud @ rows, Some e)
         | None \<Rightarrow>
             (cloud @ rows @ [Legend, Title, Set_xlabel, Set_ylabel, Tight_layout]
                @ save_or_show save_str, None))"

subsection \<open>Path table\<close>

text \<open>
  \<^verbatim>\<open>visualize_word_path_table\<close>. \<^verbatim>\<open>word_path[0]\<close> of an empty list and
  \<^verbatim>\<open>description[0]\<close> of an empty row raise \<^verbatim>\<open>IndexError\<close>; rows of unequal length do
  not make a two-dimensional array, and the transposition with \<^verbatim>\<open>[::-1, :]\<close> fails
  (recorded as \<open>ValueError\<close>).
\<close>

definition visualize_word_path_table :: "string list list \<Rightarrow> string option \<Rightarrow> run" where
  "visualize_word_path_table word_path save_str =
     (case word_path of
        [] \<Rightarrow> ([], Some IndexError)
      | first # _ \<Rightarrow>
          if first = [] then ([], Some IndexError)
          else
            (let description =
                   (replicate (length first) ([] :: string))
                     [0 := ''BASELINE'', length first - 1 := ''ORIGINAL''];
                 word_path' = description # word_path
             in if \<exists>row \<in> set word_path'. length row \<noteq> length description
                then ([], Some ValueError)
                else
                  (let np_word_path = rev (transpose word_path')
                   in ([Subplots 1 1, Axis_off, Table np_word_path, Title]
                         @ save_or_show save_str, None))))"

subsection \<open>What a call shows or saves\<close>

fun is_output :: "render_call \<Rightarrow> bool" where
  "is_output (Savefig p) = True"
| "is_output Show = True"
| "is_output _ = False"

definition output_calls :: "render_call list \<Rightarrow> render_call list" where
  "output_calls calls = filter is_output calls"

subsection \<open>The specification's own words\<close>

text \<open>
  Competition ranking as the specification words it: one plus the number of scores
  strictly greater than \<open>scores ! i\<close>.
\<close>

definition competition_rank :: "real list \<Rightarrow> nat \<Rightarrow> nat" where
  "competition_rank scores i = 1 + length (filter (\<lambda>y. scores ! i < y) scores)"

text \<open>
  The annotation set as the specification words it: the pairs \<open>(index, label)\<close> with
  \<open>index = 0\<close> or a label different from the one before, in input order.
\<close>

definition annotation_set :: "string list \<Rightarrow> (nat \<times> string) list" where
  "annotation_set labels =
     map (\<lambda>k. (k, labels ! k))
       (filter (\<lambda>k. k = 0 \<or> labels ! k \<noteq> labels ! (k - 1)) [0..<length labels])"

section \<open>Ranks of attribution scores\<close>

lemma first_pos_descending:
  fixes x :: "'a::linorder"
  shows "sorted_wrt (\<lambda>a b. b \<le> a) ys \<Longrightarrow> x \<in> set ys \<Longrightarrow>
     first_pos x ys = length (filter (\<lambda>y. x < y) ys)"
proof (induction ys)
  case Nil
  then show ?case by simp
next
  case (Cons y ys)
  show ?case
  proof (cases "y = x")
    case True
    with Cons.prems have "\<forall>z \<in> set ys. \<not> x < z" by auto
    then have "filter (\<lambda>z. x < z) ys = []" by (simp add: filter_empty_conv)
    with True show ?thesis by simp
  next
    case False
    with Cons.prems have "x \<in> set ys" and "x < y" by auto
    with Cons show ?thesis using False by simp
  qed
qed

lemma length_filter_descending_sort:
  "length (filter P (rev (sort xs))) = length (filter P (xs :: real list))"
proof -
  have "length (filter P (rev (sort xs))) = length (filter P (sort xs))"
    by (simp add: rev_filter [symmetric])
  also have "\<dots> = length (sort (filter P xs))"
    by (simp add: filter_sort)
  finally show ?thesis by simp
qed

lemma df_rank_nth:
  assumes "i < length attrs"
  shows "df_rank attrs ! i = competition_rank attrs i"
proof -
  have "sorted_wrt (\<lambda>a b. b \<le> a) (rev (sort attrs))"
    by (simp add: sorted_wrt_rev)
  moreover have "attrs ! i \<in> set (rev (sort attrs))"
    using assms by simp
  ultimately have "first_pos (attrs ! i) (rev (sort attrs)) =
      length (filter (\<lambda>y. attrs ! i < y) (rev (sort attrs)))"
    by (rule first_pos_descending)
  then show ?thesis
    using assms by (simp add: df_rank_def competition_rank_def length_filter_descending_sort)
qed

lemma length_rank: "length (rank attrs) = length attrs"
  by (simp add: rank_def df_rank_def)

lemma sint_to_int8: "sint (to_int8 r) = (int r + 128) mod 256 - 128"
  by (simp add: to_int8_def signed_of_nat signed_take_bit_eq_take_bit_shift take_bit_eq_mod)

lemma sint_rank_nth:
  assumes "i < length attrs"
  shows "sint (rank attrs ! i) = (int (competition_rank attrs i) + 128) mod 256 - 128"
proof -
  from assms have "rank attrs ! i = to_int8 (df_rank attrs ! i)"
    by (simp add: rank_def df_rank_def)
  then show ?thesis
    using assms by (simp only: df_rank_nth sint_to_int8)
qed

lemma competition_rank_bounds:
  assumes "i < length attrs"
  shows "1 \<le> competition_rank attrs i" and "competition_rank attrs i \<le> length attrs"
proof -
  show "1 \<le> competition_rank attrs i"
    by (simp add: competition_rank_def)
  have "length (filter (\<lambda>y. attrs ! i < y) attrs) < length attrs"
    using assms by (intro length_filter_less [of "attrs ! i"]) auto
  then show "competition_rank attrs i \<le> length attrs"
    by (simp add: competition_rank_def)
qed

lemma sint_rank_faithful:
  assumes "i < length attrs" and "competition_rank attrs i \<le> 127"
  shows "sint (rank attrs ! i) = int (competition_rank attrs i)"
  using assms by (simp add: sint_rank_nth)

lemma competition_rank_card:
  "competition_rank attrs i = 1 + card {j. j < length attrs \<and> attrs ! i < attrs ! j}"
  by (simp add: competition_rank_def length_filter_conv_card)

lemma competition_rank_replicate: "i < n \<Longrightarrow> competition_rank (replicate n x) i = 1"
  by (simp add: competition_rank_def)

lemma competition_rank_upt_0: "0 < n \<Longrightarrow> competition_rank (map real [0..<n]) 0 = n"
proof -
  assume n: "0 < n"
  have "filter (\<lambda>y. map real [0..<n] ! 0 < y) (map real [0..<n])
      = map real (filter (\<lambda>k. 0 < k) [0..<n])"
    using n by (simp add: filter_map comp_def)
  moreover have "filter (\<lambda>k. 0 < k) [0..<n] = [1..<n]"
    using n by (induction n) (auto simp: upt_rec [of 0])
  ultimately show ?thesis
    using n by (simp add: competition_rank_def)
qed

lemma rank_spec_example: "map sint (rank [0.1, 0.9, 0.9, 0.2, 0.05]) = [4, 1, 1, 3, 5]"
  by (simp add: rank_def df_rank_def to_int8_def)

text \<open>
  C1 (amended). For every score vector of at most 127 elements the rank vector of
  \<^verbatim>\<open>visualize_attrs\<close> is descending competition ranking: the rank at \<open>i\<close> is one plus
  the number of elements strictly greater than the score at \<open>i\<close>. For a vector of any
  length, a largest score gets rank 1 and equal scores get equal ranks, and the vector
  \<open>[0.1, 0.9, 0.9, 0.2, 0.05]\<close> is ranked \<open>[4, 1, 1, 3, 5]\<close>.
\<close>

theorem rank_competition_ranking_up_to_127:
  "(length attrs \<le> 127 \<longrightarrow>
      (\<forall>i<length attrs.
         sint (rank attrs ! i) = 1 + int (card {j. j < length attrs \<and> attrs ! i < attrs ! j})))
   \<and> length (rank attrs) = length attrs
   \<and> (\<forall>i<length attrs. (\<forall>j<length attrs. attrs ! j \<le> attrs ! i) \<longrightarrow> sint (rank attrs ! i) = 1)
   \<and> (\<forall>i<length attrs. \<forall>j<length attrs. attrs ! i = attrs ! j \<longrightarrow> rank attrs ! i = rank attrs ! j)
   \<and> map sint (rank [0.1, 0.9, 0.9, 0.2, 0.05]) = [4, 1, 1, 3, 5]"
proof (intro conjI impI allI)
  fix i
  assume n: "length attrs \<le> 127" and i: "i < length attrs"
  from i have "competition_rank attrs i \<le> length attrs"
    by (rule competition_rank_bounds)
  with n have "competition_rank attrs i \<le> 127" by simp
  with i have "sint (rank attrs ! i) = int (competition_rank attrs i)"
    by (rule sint_rank_faithful)
  then show "sint (rank attrs ! i) = 1 + int (card {j. j < length attrs \<and> attrs ! i < attrs ! j})"
    by (simp add: competition_rank_card)
next
  show "length (rank attrs) = length attrs" by (rule length_rank)
next
  fix i
  assume i: "i < length attrs" and top: "\<forall>j<length attrs. attrs ! j \<le> attrs ! i"
  have "\<not> attrs ! i < y" if "y \<in> set attrs" for y
  proof -
    from that obtain j where "j < length attrs" and "y = attrs ! j"
      by (auto simp: in_set_conv_nth)
    with top show ?thesis by (simp add: not_less)
  qed
  then have "filter (\<lambda>y. attrs ! i < y) attrs = []"
    by (simp add: filter_empty_conv)
  then have "competition_rank attrs i = 1"
    by (simp add: competition_rank_def)
  with i show "sint (rank attrs ! i) = 1"
    by (simp add: sint_rank_faithful)
next
  fix i j
  assume "i < length attrs" and "j < length attrs" and "attrs ! i = attrs ! j"
  then show "rank attrs ! i = rank attrs ! j"
    by (simp add: rank_def df_rank_def)
next
  show "map sint (rank [0.1, 0.9, 0.9, 0.2, 0.05]) = [4, 1, 1, 3, 5]"
    by (rule rank_spec_example)
qed

theorem rank_competition_ranking_up_to_127_witness:
  "length [0.1, 0.9, 0.9, 0.2, 0.05 :: real] \<le> 127
   \<and> (3 :: nat) < length [0.1, 0.9, 0.9, 0.2, 0.05 :: real]
   \<and> sint (rank [0.1, 0.9, 0.9, 0.2, 0.05] ! 3)
       = 1 + int (card {j. j < length [0.1, 0.9, 0.9, 0.2, 0.05 :: real]
                         \<and> [0.1, 0.9, 0.9, 0.2, 0.05 :: real] ! 3 < [0.1, 0.9, 0.9, 0.2, 0.05] ! j})
   \<and> sint (rank [0.1, 0.9, 0.9, 0.2, 0.05] ! 3) = 3
   \<and> (1 :: nat) < length [0.1, 0.9, 0.9, 0.2, 0.05 :: real]
   \<and> sint (rank [0.1, 0.9, 0.9, 0.2, 0.05] ! 1) = 1
   \<and> rank [0.1, 0.9, 0.9, 0.2, 0.05] ! 1 = rank [0.1, 0.9, 0.9, 0.2, 0.05] ! 2"
proof -
  let ?xs = "[0.1, 0.9, 0.9, 0.2, 0.05 :: real]"
  note t = rank_competition_ranking_up_to_127 [of ?xs]
  have len: "length ?xs \<le> 127" and three: "(3 :: nat) < length ?xs" and one: "(1 :: nat) < length ?xs"
    by simp_all
  from t len three
  have a: "sint (rank ?xs ! 3) = 1 + int (card {j. j < length ?xs \<and> ?xs ! 3 < ?xs ! j})"
    by blast
  have b: "sint (rank ?xs ! 3) = 3"
    using rank_spec_example by (simp add: list_eq_iff_nth_eq)
  have "\<forall>j<length ?xs. ?xs ! j \<le> ?xs ! 1"
    by (simp add: less_Suc_eq all_conj_distrib)
  with t one have c: "sint (rank ?xs ! 1) = 1"
    by blast
  have "?xs ! 1 = ?xs ! 2" and "(2 :: nat) < length ?xs" by simp_all
  with t one have d: "rank ?xs ! 1 = rank ?xs ! 2"
    by blast
  from len three a b one c d show ?thesis by blast
qed

text \<open>
  The claim as first worded, for a vector of any length, fails at 128 distinct scores:
  the smallest one has 127 greater elements, and its rank is stored as \<open>-128\<close>.
\<close>

theorem rank_competition_ranking_counterexample:
  "sint (rank (map real [0..<128]) ! 0)
     \<noteq> 1 + int (card {j. j < length (map real [0..<128])
                        \<and> map real [0..<128] ! 0 < map real [0..<128] ! j})"
proof -
  have "competition_rank (map real [0..<128]) 0 = 128"
    by (simp add: competition_rank_upt_0)
  then have "1 + card {j. j < length (map real [0..<128])
                        \<and> map real [0..<128] ! 0 < map real [0..<128] ! j} = 128"
    by (simp only: competition_rank_card)
  moreover have "sint (rank (map real [0..<128]) ! 0) = - 128"
    by (simp add: sint_rank_nth competition_rank_upt_0)
  ultimately show ?thesis by linarith
qed

lemma distinct_min_rank:
  assumes "distinct attrs" and "attrs \<noteq> []"
  shows "\<exists>i<length attrs. competition_rank attrs i = length attrs"
proof -
  let ?m = "Min (set attrs)"
  have "?m \<in> set attrs" using assms(2) by simp
  then obtain i where i: "i < length attrs" and m: "attrs ! i = ?m"
    by (auto simp: in_set_conv_nth)
  have "{y. ?m < y} \<inter> set attrs = set attrs - {?m}"
    by (auto simp: less_le)
  then have "length (filter (\<lambda>y. ?m < y) attrs) = card (set attrs - {?m})"
    using assms(1) by (simp add: distinct_length_filter)
  also have "\<dots> = length attrs - 1"
    using assms(1) \<open>?m \<in> set attrs\<close> by (simp add: distinct_card)
  finally have "competition_rank attrs i = length attrs"
    using m i by (simp add: competition_rank_def)
  with i show ?thesis by blast
qed

text \<open>
  C9 (amended). The rank vector is stored as signed 8-bit integers, so each stored rank
  is the competition rank reduced modulo 256 into \<open>-128..127\<close>. A rank above 127 is
  never stored faithfully, and one in \<open>128..255\<close> becomes a negative palette index.
  Every vector of more than 127 pairwise distinct scores has such a rank, and every
  vector of at most 127 scores is ranked faithfully.
\<close>

theorem rank_int8_wraps:
  "(\<forall>i<length attrs.
      sint (rank attrs ! i) = (int (competition_rank attrs i) + 128) mod 256 - 128)
   \<and> (\<forall>i<length attrs. 127 < competition_rank attrs i \<longrightarrow>
         sint (rank attrs ! i) \<noteq> int (competition_rank attrs i))
   \<and> (\<forall>i<length attrs. 127 < competition_rank attrs i \<and> competition_rank attrs i \<le> 255 \<longrightarrow>
         sint (rank attrs ! i) = int (competition_rank attrs i) - 256 \<and> sint (rank attrs ! i) < 0)
   \<and> (distinct attrs \<and> 127 < length attrs \<longrightarrow>
         (\<exists>i<length attrs. sint (rank attrs ! i) \<noteq> int (competition_rank attrs i)))
   \<and> (length attrs \<le> 127 \<longrightarrow>
         (\<forall>i<length attrs. sint (rank attrs ! i) = int (competition_rank attrs i)))"
proof (intro conjI impI allI)
  fix i assume "i < length attrs"
  then show "sint (rank attrs ! i) = (int (competition_rank attrs i) + 128) mod 256 - 128"
    by (rule sint_rank_nth)
next
  fix i assume "i < length attrs" and "127 < competition_rank attrs i"
  moreover have "sint (rank attrs ! i) < 128"
    using sint_lt [of "rank attrs ! i"] by simp
  ultimately show "sint (rank attrs ! i) \<noteq> int (competition_rank attrs i)"
    by linarith
next
  fix i assume i: "i < length attrs"
    and r: "127 < competition_rank attrs i \<and> competition_rank attrs i \<le> 255"
  from r have "(int (competition_rank attrs i) + 128) mod 256 = int (competition_rank attrs i) - 128"
    by (simp add: mod_pos_geq)
  with i have w: "sint (rank attrs ! i) = int (competition_rank attrs i) - 256"
    by (simp add: sint_rank_nth)
  from w r show "sint (rank attrs ! i) = int (competition_rank attrs i) - 256" by simp
  from w r show "sint (rank attrs ! i) < 0" by simp
next
  assume d: "distinct attrs \<and> 127 < length attrs"
  then have "attrs \<noteq> []" by auto
  with d obtain i where i: "i < length attrs" and "competition_rank attrs i = length attrs"
    using distinct_min_rank by blast
  with d have "127 < competition_rank attrs i" by simp
  moreover have "sint (rank attrs ! i) < 128"
    using sint_lt [of "rank attrs ! i"] by simp
  ultimately have "sint (rank attrs ! i) \<noteq> int (competition_rank attrs i)"
    by linarith
  with i show "\<exists>i<length attrs. sint (rank attrs ! i) \<noteq> int (competition_rank attrs i)"
    by blast
next
  fix i assume n: "length attrs \<le> 127" and i: "i < length attrs"
  from i have "competition_rank attrs i \<le> length attrs"
    by (rule competition_rank_bounds)
  with n have "competition_rank attrs i \<le> 127" by simp
  with i show "sint (rank attrs ! i) = int (competition_rank attrs i)"
    by (rule sint_rank_faithful)
qed

lemma distinct_upt_real: "distinct (map real [0..<n])"
  by (simp add: distinct_map inj_on_def)

theorem rank_int8_wraps_witness:
  "distinct (map real [0..<128]) \<and> 127 < length (map real [0..<128])
   \<and> (\<exists>i<length (map real [0..<128]).
         sint (rank (map real [0..<128]) ! i) \<noteq> int (competition_rank (map real [0..<128]) i))
   \<and> (0 :: nat) < length (map real [0..<128])
   \<and> 127 < competition_rank (map real [0..<128]) 0
   \<and> competition_rank (map real [0..<128]) 0 \<le> 255
   \<and> sint (rank (map real [0..<128]) ! 0) = int (competition_rank (map real [0..<128]) 0) - 256
   \<and> sint (rank (map real [0..<128]) ! 0) < 0
   \<and> length [0.5, 0.25 :: real] \<le> 127 \<and> (1 :: nat) < length [0.5, 0.25 :: real]
   \<and> sint (rank [0.5, 0.25] ! 1) = int (competition_rank [0.5, 0.25] 1)"
proof -
  let ?xs = "map real [0..<128]"
  let ?ys = "[0.5, 0.25 :: real]"
  have d: "distinct ?xs \<and> 127 < length ?xs"
    by (simp add: distinct_upt_real)
  have z: "(0 :: nat) < length ?xs" by simp
  have r: "127 < competition_rank ?xs 0 \<and> competition_rank ?xs 0 \<le> 255"
    by (simp add: competition_rank_upt_0)
  have s: "length ?ys \<le> 127" and o: "(1 :: nat) < length ?ys" by simp_all
  note t = rank_int8_wraps [of ?xs]
  note u = rank_int8_wraps [of ?ys]
  from t d have a: "\<exists>i<length ?xs. sint (rank ?xs ! i) \<noteq> int (competition_rank ?xs i)"
    by blast
  from t z r have b: "sint (rank ?xs ! 0) = int (competition_rank ?xs 0) - 256 \<and> sint (rank ?xs ! 0) < 0"
    by blast
  from u s o have c: "sint (rank ?ys ! 1) = int (competition_rank ?ys 1)"
    by blast
  from d a z r b s o c show ?thesis by blast
qed

text \<open>
  More than 127 tokens do not force a wrap by themselves: 128 equal scores are all
  ranked 1, and every stored rank is the competition rank.
\<close>

theorem rank_int8_wraps_counterexample:
  "127 < length (replicate 128 (0 :: real))
   \<and> \<not> (\<exists>i<length (replicate 128 (0 :: real)).
          sint (rank (replicate 128 0) ! i) \<noteq> int (competition_rank (replicate 128 0) i))"
  by (simp add: sint_rank_nth competition_rank_replicate)

section \<open>Palette lookup\<close>

lemma np_index_Inr_iff:
  "(\<exists>v. np_index a i = Inr v) \<longleftrightarrow> - int (length a) \<le> i \<and> i < int (length a)"
  by (auto simp: np_index_def Let_def)

lemma np_index_error: "np_index a i = Inl e \<Longrightarrow> e = IndexError"
  by (auto simp: np_index_def Let_def split: if_splits)

lemma np_index_nat: "k < length a \<Longrightarrow> np_index a (int k) = Inr (a ! k)"
  by (simp add: np_index_def)

lemma np_take_Inr_iff:
  "(\<exists>vs. np_take a idx = Inr vs) \<longleftrightarrow> (\<forall>i \<in> set idx. - int (length a) \<le> i \<and> i < int (length a))"
proof (induction idx)
  case Nil
  show ?case by simp
next
  case (Cons i idx)
  show ?case
  proof (cases "np_index a i")
    case (Inl e)
    then have "\<not> (\<exists>v. np_index a i = Inr v)" by simp
    with np_index_Inr_iff [of a i] have "\<not> (- int (length a) \<le> i \<and> i < int (length a))"
      by blast
    moreover from Inl have "\<not> (\<exists>vs. np_take a (i # idx) = Inr vs)" by simp
    ultimately show ?thesis by auto
  next
    case (Inr v)
    then have "\<exists>v. np_index a i = Inr v" by blast
    with np_index_Inr_iff [of a i] have "- int (length a) \<le> i \<and> i < int (length a)"
      by blast
    with Inr Cons.IH show ?thesis
      by (auto split: sum.splits)
  qed
qed

lemma np_take_error: "np_take a idx = Inl e \<Longrightarrow> e = IndexError"
  by (induction idx) (auto split: sum.splits dest: np_index_error)

lemma length_color_palette: "length (color_palette n) = n"
  by (simp add: color_palette_def)

lemma attr_rows_ok_iff:
  "snd (attr_rows pal token_words i bl_attrs) = None \<longleftrightarrow>
     (\<forall>(bl_name, attrs) \<in> set bl_attrs.
        \<forall>r \<in> set (rank attrs). - int (length pal) \<le> sint r \<and> sint r < int (length pal))"
proof (induction bl_attrs arbitrary: i)
  case Nil
  show ?case by simp
next
  case (Cons row rest)
  obtain bl_name attrs where row: "row = (bl_name, attrs)" by (cases row)
  have take: "(\<exists>vs. np_take pal (map sint (rank attrs)) = Inr vs) \<longleftrightarrow>
      (\<forall>r \<in> set (rank attrs). - int (length pal) \<le> sint r \<and> sint r < int (length pal))"
    by (simp add: np_take_Inr_iff)
  show ?case
  proof (cases "np_take pal (map sint (rank attrs))")
    case (Inl e)
    with take have "\<not> (\<forall>r \<in> set (rank attrs). - int (length pal) \<le> sint r \<and> sint r < int (length pal))"
      by simp
    with Inl row show ?thesis by auto
  next
    case (Inr palette)
    with take have "\<forall>r \<in> set (rank attrs). - int (length pal) \<le> sint r \<and> sint r < int (length pal)"
      by blast
    with Inr row Cons.IH [of "Suc i"] show ?thesis
      by (simp add: split_beta)
  qed
qed

lemma attr_rows_error:
  "snd (attr_rows pal token_words i bl_attrs) = Some e \<Longrightarrow> e = IndexError"
proof (induction bl_attrs arbitrary: i)
  case Nil
  then show ?case by simp
next
  case (Cons row rest)
  obtain bl_name attrs where row: "row = (bl_name, attrs)" by (cases row)
  show ?case
  proof (cases "np_take pal (map sint (rank attrs))")
    case (Inl e')
    with Cons.prems row show ?thesis by (auto dest: np_take_error)
  next
    case (Inr palette)
    with Cons.prems row have "snd (attr_rows pal token_words (Suc i) rest) = Some e"
      by (simp add: split_beta)
    then show ?thesis by (rule Cons.IH)
  qed
qed

lemma visualize_attrs_no_rows:
  "visualize_attrs [] token_words save_str = ([Subplots 0 1], Some IndexError)"
  by (simp add: visualize_attrs_def np_index_def)

lemma first_axes_read: "bl_attrs \<noteq> [] \<Longrightarrow> np_index [0..<length bl_attrs] 0 = Inr 0"
  by (simp add: np_index_def)

lemma snd_visualize_attrs:
  "bl_attrs \<noteq> [] \<Longrightarrow>
   snd (visualize_attrs bl_attrs token_words save_str)
     = snd (attr_rows (color_palette (length token_words)) token_words 0 bl_attrs)"
  by (simp add: visualize_attrs_def Let_def first_axes_read split: prod.splits option.splits)

lemma fst_visualize_attrs:
  "bl_attrs \<noteq> [] \<Longrightarrow>
   fst (visualize_attrs bl_attrs token_words save_str)
     = [Subplots (length bl_attrs) 1, Inset_axes]
         @ fst (attr_rows (color_palette (length token_words)) token_words 0 bl_attrs)
         @ (if snd (attr_rows (color_palette (length token_words)) token_words 0 bl_attrs) = None
            then [Colorbar, Fig_text, Suptitle] @ save_or_show save_str else [])"
  by (simp add: visualize_attrs_def Let_def first_axes_read split: prod.splits option.splits)


section \<open>Path annotations\<close>

lemma annotate_loop_aligned:
  assumes "length (pre @ rest) \<le> length emb"
    and "last_word = (if pre = [] then None else Some (last pre))"
  shows "annotate_loop emb last_word (length pre) rest =
     (map (\<lambda>k. Annotate ((pre @ rest) ! k) (emb ! k))
        (filter (\<lambda>k. k = 0 \<or> (pre @ rest) ! k \<noteq> (pre @ rest) ! (k - 1))
           [length pre..<length (pre @ rest)]), None)"
  using assms
proof (induction rest arbitrary: pre last_word)
  case Nil
  then show ?case by simp
next
  case (Cons word words)
  define i where "i = length pre"
  define all where "all = pre @ word # words"
  define P where "P = (\<lambda>k. k = 0 \<or> all ! k \<noteq> all ! (k - 1))"
  have all': "all = (pre @ [word]) @ words" by (simp add: all_def)
  have upt: "[i..<length all] = i # [Suc i..<length all]"
    by (rule upt_conv_Cons) (simp add: i_def all_def)
  have here: "all ! i = word" by (simp add: i_def all_def)
  have sel: "P i \<longleftrightarrow> Some word \<noteq> last_word"
  proof (cases "pre = []")
    case True
    with Cons.prems(2) show ?thesis by (simp add: P_def i_def)
  next
    case False
    then have "all ! (i - 1) = last pre"
      by (simp add: nth_append last_conv_nth i_def all_def)
    with False Cons.prems(2) here show ?thesis by (auto simp: P_def i_def)
  qed
  have inrange: "np_index emb (int i) = Inr (emb ! i)"
    using Cons.prems(1) by (simp add: np_index_nat i_def)
  have rec: "annotate_loop emb lw (Suc i) words =
        (map (\<lambda>k. Annotate (all ! k) (emb ! k)) (filter P [Suc i..<length all]), None)"
    if "lw = Some word" for lw
  proof -
    have "annotate_loop emb lw (length (pre @ [word])) words =
        (map (\<lambda>k. Annotate (((pre @ [word]) @ words) ! k) (emb ! k))
           (filter (\<lambda>k. k = 0 \<or> ((pre @ [word]) @ words) ! k \<noteq> ((pre @ [word]) @ words) ! (k - 1))
              [length (pre @ [word])..<length ((pre @ [word]) @ words)]), None)"
      using Cons.prems(1) that by (intro Cons.IH) simp_all
    then show ?thesis
      unfolding all' [symmetric] P_def [symmetric] by (simp add: i_def)
  qed
  have "annotate_loop emb last_word i (word # words) =
      (map (\<lambda>k. Annotate (all ! k) (emb ! k)) (filter P [i..<length all]), None)"
  proof (cases "Some word \<noteq> last_word")
    case True
    with sel have "P i" by blast
    with True show ?thesis
      by (subst upt) (simp add: rec inrange here)
  next
    case False
    with sel have "\<not> P i" by blast
    with False show ?thesis
      by (subst upt) (simp add: rec)
  qed
  then show ?case
    by (simp add: i_def all_def P_def)
qed

lemma annotate_loop_annotation_set:
  assumes "length words \<le> length emb"
  shows "annotate_loop emb None 0 words
     = (map (\<lambda>(k, w). Annotate w (emb ! k)) (annotation_set words), None)"
  using annotate_loop_aligned [of "[]" words emb None] assms
  by (simp add: annotation_set_def comp_def)

lemma annotation_set_no_repeats:
  assumes "\<forall>k. Suc k < length labels \<longrightarrow> labels ! Suc k \<noteq> labels ! k"
  shows "annotation_set labels = map (\<lambda>k. (k, labels ! k)) [0..<length labels]"
proof -
  have "k = 0 \<or> labels ! k \<noteq> labels ! (k - 1)" if "k \<in> set [0..<length labels]" for k
  proof (cases k)
    case 0
    then show ?thesis by simp
  next
    case (Suc j)
    with that assms show ?thesis by simp
  qed
  then have "filter (\<lambda>k. k = 0 \<or> labels ! k \<noteq> labels ! (k - 1)) [0..<length labels]
      = [0..<length labels]"
    by (simp only: filter_id_conv) blast
  then show ?thesis by (simp only: annotation_set_def)
qed

lemma annotation_set_one_label:
  assumes "labels \<noteq> []" and "\<forall>w \<in> set labels. w = hd labels"
  shows "annotation_set labels = [(0, hd labels)]"
proof -
  have same: "labels ! k = hd labels" if "k < length labels" for k
    using that assms(2) by simp
  have "\<not> (k = 0 \<or> labels ! k \<noteq> labels ! (k - 1))" if "k \<in> set [Suc 0..<length labels]" for k
  proof -
    from that have "k \<noteq> 0" and "k < length labels" and "k - 1 < length labels"
      by auto
    then show ?thesis by (simp add: same)
  qed
  then have rest: "filter (\<lambda>k. k = 0 \<or> labels ! k \<noteq> labels ! (k - 1)) [Suc 0..<length labels] = []"
    by (simp only: filter_empty_conv) blast
  have "[0..<length labels] = 0 # [Suc 0..<length labels]"
    using assms(1) by (intro upt_conv_Cons) simp
  then have "filter (\<lambda>k. k = 0 \<or> labels ! k \<noteq> labels ! (k - 1)) [0..<length labels] = [0]"
    using rest by simp
  then show ?thesis
    using assms(1) by (simp add: annotation_set_def hd_conv_nth)
qed

text \<open>
  C5. Run on a label sequence aligned with its path points, the annotation loop of
  \<^verbatim>\<open>visualize_word_path\<close> and \<^verbatim>\<open>visualize_word_paths\<close> annotates exactly the pairs
  \<open>(index, label)\<close> with \<open>index = 0\<close> or a label different from the one before, in input
  order, each at the path point of its index, and raises nothing. A sequence without
  consecutive repeats is annotated at every index; a non-empty sequence of one repeated
  label is annotated once, at index 0.
\<close>

theorem annotate_loop_marks_label_changes:
  "length emb = length words \<Longrightarrow>
     annotate_loop emb None 0 words
       = (map (\<lambda>(k, w). Annotate w (emb ! k)) (annotation_set words), None)
     \<and> ((\<forall>k. Suc k < length words \<longrightarrow> words ! Suc k \<noteq> words ! k) \<longrightarrow>
          annotate_loop emb None 0 words
            = (map (\<lambda>k. Annotate (words ! k) (emb ! k)) [0..<length words], None))
     \<and> (words \<noteq> [] \<and> (\<forall>w \<in> set words. w = hd words) \<longrightarrow>
          annotate_loop emb None 0 words = ([Annotate (hd words) (emb ! 0)], None))"
proof -
  assume "length emb = length words"
  then have run: "annotate_loop emb None 0 words
       = (map (\<lambda>(k, w). Annotate w (emb ! k)) (annotation_set words), None)"
    by (simp add: annotate_loop_annotation_set)
  have "annotate_loop emb None 0 words
            = (map (\<lambda>k. Annotate (words ! k) (emb ! k)) [0..<length words], None)"
    if "\<forall>k. Suc k < length words \<longrightarrow> words ! Suc k \<noteq> words ! k"
    using that by (simp add: run annotation_set_no_repeats comp_def)
  moreover have "annotate_loop emb None 0 words = ([Annotate (hd words) (emb ! 0)], None)"
    if "words \<noteq> [] \<and> (\<forall>w \<in> set words. w = hd words)"
    using that by (simp add: run annotation_set_one_label)
  ultimately show ?thesis
    using run by blast
qed

theorem annotate_loop_marks_label_changes_witness:
  "length [(0, 0), (1, 0), (2, 1) :: point] = length [''PAD'', ''PAD'', ''good'']
   \<and> annotate_loop [(0, 0), (1, 0), (2, 1)] None 0 [''PAD'', ''PAD'', ''good'']
       = ([Annotate ''PAD'' (0, 0), Annotate ''good'' (2, 1)], None)
   \<and> length [(0, 0), (1, 0), (2, 1) :: point] = length [''PAD'', ''a'', ''good'']
   \<and> (Suc 0 < length [''PAD'', ''a'', ''good''] \<and> [''PAD'', ''a'', ''good''] ! Suc 0 \<noteq> [''PAD'', ''a'', ''good''] ! 0)
   \<and> annotate_loop [(0, 0), (1, 0), (2, 1)] None 0 [''PAD'', ''a'', ''good'']
       = ([Annotate ''PAD'' (0, 0), Annotate ''a'' (1, 0), Annotate ''good'' (2, 1)], None)
   \<and> length [(0, 0), (1, 0), (2, 1) :: point] = length [''PAD'', ''PAD'', ''PAD'']
   \<and> [''PAD'', ''PAD'', ''PAD''] \<noteq> []
   \<and> annotate_loop [(0, 0), (1, 0), (2, 1)] None 0 [''PAD'', ''PAD'', ''PAD'']
       = ([Annotate ''PAD'' (0, 0)], None)"
proof -
  let ?emb = "[(0, 0), (1, 0), (2, 1) :: point]"
  let ?u = "[''PAD'', ''PAD'', ''good'']"
  let ?v = "[''PAD'', ''a'', ''good'']"
  let ?w = "[''PAD'', ''PAD'', ''PAD'']"
  have lu: "length ?emb = length ?u" and lv: "length ?emb = length ?v"
    and lw: "length ?emb = length ?w"
    by simp_all
  have "map (\<lambda>(k, w). Annotate w (?emb ! k)) (annotation_set ?u)
      = [Annotate ''PAD'' (0, 0), Annotate ''good'' (2, 1)]"
    by (simp add: annotation_set_def upt_rec)
  with annotate_loop_marks_label_changes [OF lu]
  have a: "annotate_loop ?emb None 0 ?u
      = ([Annotate ''PAD'' (0, 0), Annotate ''good'' (2, 1)], None)"
    by (simp only:)
  have hv: "\<forall>k. Suc k < length ?v \<longrightarrow> ?v ! Suc k \<noteq> ?v ! k"
    by (simp add: less_Suc_eq)
  have "map (\<lambda>k. Annotate (?v ! k) (?emb ! k)) [0..<length ?v]
      = [Annotate ''PAD'' (0, 0), Annotate ''a'' (1, 0), Annotate ''good'' (2, 1)]"
    by (simp add: upt_rec)
  moreover from annotate_loop_marks_label_changes [OF lv] hv
  have "annotate_loop ?emb None 0 ?v
      = (map (\<lambda>k. Annotate (?v ! k) (?emb ! k)) [0..<length ?v], None)"
    by blast
  ultimately have b: "annotate_loop ?emb None 0 ?v
      = ([Annotate ''PAD'' (0, 0), Annotate ''a'' (1, 0), Annotate ''good'' (2, 1)], None)"
    by (simp only:)
  have hw: "?w \<noteq> [] \<and> (\<forall>w \<in> set ?w. w = hd ?w)"
    by simp
  have "[Annotate (hd ?w) (?emb ! 0)] = [Annotate ''PAD'' (0, 0)]"
    by simp
  moreover from annotate_loop_marks_label_changes [OF lw] hw
  have "annotate_loop ?emb None 0 ?w = ([Annotate (hd ?w) (?emb ! 0)], None)"
    by blast
  ultimately have c: "annotate_loop ?emb None 0 ?w = ([Annotate ''PAD'' (0, 0)], None)"
    by (simp only:)
  have sv: "Suc 0 < length ?v \<and> ?v ! Suc 0 \<noteq> ?v ! 0"
    by simp
  from lu a lv sv b lw hw c show ?thesis by blast
qed

section \<open>Mismatched lengths\<close>

lemma snd_visualize_word_path:
  "snd (visualize_word_path word_path_emb word_path_discretized_emb word_path pca save_str)
     = snd (annotate_loop (map pca word_path_discretized_emb) None 0 word_path)"
  by (simp add: visualize_word_path_def Let_def split: prod.splits option.splits)

lemma fst_visualize_word_path:
  "fst (visualize_word_path word_path_emb word_path_discretized_emb word_path pca save_str)
     = [Subplots 1 1, Plot (map pca word_path_emb), Plot (map pca word_path_discretized_emb),
        Legend, Title, Set_xlabel, Set_ylabel]
         @ fst (annotate_loop (map pca word_path_discretized_emb) None 0 word_path)
         @ (if snd (annotate_loop (map pca word_path_discretized_emb) None 0 word_path) = None
            then save_or_show save_str else [])"
  by (simp add: visualize_word_path_def Let_def split: prod.splits option.splits)





lemma palette_lookup_fails_on_distinct_scores:
  assumes "distinct attrs" and "attrs \<noteq> []" and "length attrs \<le> 127"
    and "length token_words = length attrs"
  shows "snd (visualize_attrs [(bl_name, attrs)] token_words save_str) = Some IndexError"
proof -
  from assms(1,2) obtain i where i: "i < length attrs"
    and r: "competition_rank attrs i = length attrs"
    using distinct_min_rank by blast
  with assms(3) have "sint (rank attrs ! i) = int (length attrs)"
    by (simp add: sint_rank_faithful)
  moreover from i have "rank attrs ! i \<in> set (rank attrs)"
    by (simp add: length_rank)
  ultimately have "\<not> (\<forall>r \<in> set (rank attrs).
      - int (length token_words) \<le> sint r \<and> sint r < int (length token_words))"
    using assms(4) by force
  then have rows: "snd (attr_rows (color_palette (length token_words)) token_words 0
      [(bl_name, attrs)]) \<noteq> None"
    unfolding attr_rows_ok_iff length_color_palette by simp
  have ne: "[(bl_name, attrs)] \<noteq> []" by simp
  from rows have "snd (visualize_attrs [(bl_name, attrs)] token_words save_str) \<noteq> None"
    unfolding snd_visualize_attrs [OF ne] .
  then obtain e where e: "snd (visualize_attrs [(bl_name, attrs)] token_words save_str) = Some e"
    by blast
  then have "e = IndexError"
    by (simp only: snd_visualize_attrs [OF ne]) (rule attr_rows_error)
  with e show ?thesis by simp
qed

text \<open>
  C4. The palette is indexed with the rank itself: rank 1 reads the second palette
  entry and rank \<open>N\<close> reads past the last one. On the specification's own example (five
  scores, five tokens, ranks \<open>[4, 1, 1, 3, 5]\<close>) the lookup of rank 5 in the
  five-colour palette raises \<^verbatim>\<open>IndexError\<close> after the figure has been created, and no
  bar is drawn.
\<close>

theorem palette_lookup_by_rank_out_of_bounds:
  "visualize_attrs [(''pad'', [0.1, 0.9, 0.9, 0.2, 0.05])]
       [''the'', ''movie'', ''was'', ''really'', ''great''] None
     = ([Subplots 1 1, Inset_axes], Some IndexError)
   \<and> np_index (color_palette 5) (sint (to_int8 1)) = Inr (Summer 1 5)
   \<and> np_index (color_palette 5) (sint (to_int8 5)) = Inl IndexError
   \<and> visualize_attrs [(''pad'', [0.5])] [''the''] None
     = ([Subplots 1 1, Inset_axes], Some IndexError)"
  by (simp add: visualize_attrs_def rank_def df_rank_def to_int8_def
      color_palette_def np_index_def upt_rec)

section \<open>Distribution statistics\<close>

lemma py_round_near: "\<bar>x - of_int (py_round x)\<bar> \<le> 1 / 2"
  unfolding py_round_def Let_def by (auto simp: abs_le_iff)

lemma py_round_nonneg: "0 \<le> x \<Longrightarrow> 0 \<le> py_round x"
  unfolding py_round_def Let_def by (auto simp: zero_le_floor intro: add_nonneg_nonneg)

lemma n_outliers_range:
  assumes "0 < n"
  shows "0 \<le> py_round (real n * 0.001)" and "py_round (real n * 0.001) < int n"
proof -
  let ?k = "py_round (real n * 0.001)"
  show "0 \<le> ?k" by (rule py_round_nonneg) simp
  have "real_of_int ?k \<le> real n * 0.001 + 1 / 2"
    using py_round_near [of "real n * 0.001"] by linarith
  also have "\<dots> < real n"
    using assms by simp
  finally show "?k < int n" by simp
qed

lemma n_outliers_small:
  assumes "n \<le> 500"
  shows "py_round (real n * 0.001) = 0"
proof -
  have f: "\<lfloor>real n * 0.001\<rfloor> = 0"
    using assms by (simp add: floor_eq_iff)
  have "real n * 0.001 \<le> 1 / 2"
    using assms by simp
  with f show ?thesis
    by (simp add: py_round_def Let_def)
qed

lemma soft_top_read:
  assumes "flattened \<noteq> []"
  shows "np_index (sort flattened) (py_round (real (length flattened) * 0.001))
     = Inr (sort flattened ! nat (py_round (real (length flattened) * 0.001)))"
  using n_outliers_range [of "length flattened"] assms
  by (simp add: np_index_def)

lemma soft_bot_read:
  assumes "flattened \<noteq> []"
  shows "np_index (sort flattened) (- py_round (real (length flattened) * 0.001))
     = Inr (sort flattened !
         (if py_round (real (length flattened) * 0.001) = 0 then 0
          else length flattened - nat (py_round (real (length flattened) * 0.001))))"
proof -
  let ?k = "py_round (real (length flattened) * 0.001)"
  from assms have r: "0 \<le> ?k" "?k < int (length flattened)"
    using n_outliers_range [of "length flattened"] by simp_all
  show ?thesis
  proof (cases "?k = 0")
    case True
    with assms show ?thesis by (simp add: np_index_def)
  next
    case False
    with r have "nat (int (length flattened) - ?k) = length flattened - nat ?k"
      by linarith
    with False r show ?thesis by (simp add: np_index_def Let_def)
  qed
qed

lemma embedding_histogram_result:
  assumes "flattened \<noteq> []"
  shows "snd (embedding_histogram flattened) =
     Inr \<lparr>r_min = Min (set flattened), r_max = Max (set flattened),
          r_mu = np_mean flattened, r_sigma = np_std flattened,
          r_top = np_mean flattened + 2.58 * np_std flattened,
          r_bot = np_mean flattened - 2.58 * np_std flattened,
          r_soft_top = sort flattened ! nat (py_round (real (length flattened) * 0.001)),
          r_soft_bot = sort flattened !
            (if py_round (real (length flattened) * 0.001) = 0 then 0
             else length flattened - nat (py_round (real (length flattened) * 0.001))),
          r_count = sum_list (map (\<lambda>x. if np_mean flattened - 2.58 * np_std flattened < x
                                          \<and> x < np_mean flattened + 2.58 * np_std flattened
                                        then 1 else 0) flattened),
          r_pct = (100 * real (sum_list (map (\<lambda>x. if np_mean flattened - 2.58 * np_std flattened < x
                                          \<and> x < np_mean flattened + 2.58 * np_std flattened
                                        then 1 else 0) flattened))) / real (length flattened)\<rparr>"
  unfolding embedding_histogram_def Let_def
  by (simp only: soft_top_read [OF assms] soft_bot_read [OF assms] sum.case snd_conv)






lemma hd_sort_Min:
  assumes "xs \<noteq> []"
  shows "sort xs ! 0 = Min (set xs)"
proof -
  from assms have ne: "sort xs \<noteq> []" by (metis length_sort length_0_conv)
  then obtain y ys where s: "sort xs = y # ys" by (cases "sort xs") auto
  have "sorted (sort xs)" by simp
  then have "sorted (y # ys)" by (simp only: s)
  then have "\<forall>z \<in> set (y # ys). y \<le> z" by auto
  moreover have "set (sort xs) = set xs" by simp
  then have "set (y # ys) = set xs" by (simp only: s)
  ultimately have "Min (set xs) = y"
    by (intro Min_eqI) auto
  with s show ?thesis by simp
qed

text \<open>
  C2 (amended). For every non-empty flattened array of length \<open>N\<close>, with
  \<open>k = round(0.001 * N)\<close> (the nearest integer, so \<open>0 \<le> k < N\<close>), the component reports
  \<open>soft_top = sorted[k]\<close>, and \<open>soft_bot = sorted[N - k]\<close> when \<open>k \<ge> 1\<close>; when \<open>k = 0\<close>
  the read \<^verbatim>\<open>sorted[-0]\<close> is \<open>sorted[0]\<close>. Neither read raises.
\<close>

theorem soft_bounds_index_arithmetic:
  "flattened \<noteq> [] \<Longrightarrow> k = py_round (real (length flattened) * 0.001) \<Longrightarrow>
     0 \<le> k \<and> k < int (length flattened)
     \<and> \<bar>real (length flattened) * 0.001 - real_of_int k\<bar> \<le> 1 / 2
     \<and> (\<exists>s. snd (embedding_histogram flattened) = Inr s
            \<and> r_soft_top s = sort flattened ! nat k
            \<and> (0 < k \<longrightarrow> r_soft_bot s = sort flattened ! (length flattened - nat k))
            \<and> (k = 0 \<longrightarrow> r_soft_bot s = sort flattened ! 0))"
proof -
  assume ne: "flattened \<noteq> []" and k: "k = py_round (real (length flattened) * 0.001)"
  from ne have "0 \<le> k" and "k < int (length flattened)"
    unfolding k using n_outliers_range [of "length flattened"] by simp_all
  moreover have "\<bar>real (length flattened) * 0.001 - real_of_int k\<bar> \<le> 1 / 2"
    unfolding k by (rule py_round_near)
  moreover have "\<exists>s. snd (embedding_histogram flattened) = Inr s
            \<and> r_soft_top s = sort flattened ! nat k
            \<and> (0 < k \<longrightarrow> r_soft_bot s = sort flattened ! (length flattened - nat k))
            \<and> (k = 0 \<longrightarrow> r_soft_bot s = sort flattened ! 0)"
    unfolding k by (simp add: embedding_histogram_result [OF ne])
  ultimately show ?thesis by blast
qed

lemma n_outliers_1000: "py_round (real (length (replicate 1000 (0 :: real))) * 0.001) = 1"
  by (simp add: py_round_def)

theorem soft_bounds_index_arithmetic_witness:
  "replicate 1000 (0 :: real) \<noteq> []
   \<and> 1 = py_round (real (length (replicate 1000 (0 :: real))) * 0.001)
   \<and> (\<exists>s. snd (embedding_histogram (replicate 1000 0)) = Inr s
          \<and> r_soft_top s = sort (replicate 1000 0) ! nat 1
          \<and> r_soft_bot s = sort (replicate 1000 0) ! (length (replicate 1000 (0 :: real)) - nat 1))
   \<and> [3, 1, 2 :: real] \<noteq> []
   \<and> 0 = py_round (real (length [3, 1, 2 :: real]) * 0.001)
   \<and> (\<exists>s. snd (embedding_histogram [3, 1, 2]) = Inr s
          \<and> r_soft_top s = sort [3, 1, 2] ! nat 0
          \<and> r_soft_bot s = sort [3, 1, 2] ! 0)"
proof -
  have a: "replicate 1000 (0 :: real) \<noteq> []" by simp
  have b: "1 = py_round (real (length (replicate 1000 (0 :: real))) * 0.001)"
    by (simp only: n_outliers_1000)
  have c: "[3, 1, 2 :: real] \<noteq> []" by simp
  have d: "0 = py_round (real (length [3, 1, 2 :: real]) * 0.001)"
    by (rule n_outliers_small [symmetric]) simp
  from soft_bounds_index_arithmetic [OF a b]
  have e: "\<exists>s. snd (embedding_histogram (replicate 1000 0)) = Inr s
          \<and> r_soft_top s = sort (replicate 1000 0) ! nat 1
          \<and> r_soft_bot s = sort (replicate 1000 0) ! (length (replicate 1000 (0 :: real)) - nat 1)"
    by auto
  from soft_bounds_index_arithmetic [OF c d]
  have f: "\<exists>s. snd (embedding_histogram [3, 1, 2]) = Inr s
          \<and> r_soft_top s = sort [3, 1, 2] ! nat 0
          \<and> r_soft_bot s = sort [3, 1, 2] ! 0"
    by auto
  from a b e c d f show ?thesis by blast
qed

text \<open>
  With three elements \<open>k = 0\<close>: \<open>sorted[N - k]\<close> is \<open>sorted[3]\<close>, which does not exist,
  while the component reads \<open>sorted[-0]\<close> and reports the minimum, 1.
\<close>

theorem soft_bounds_index_arithmetic_counterexample:
  "(\<exists>s. snd (embedding_histogram [3, 1, 2]) = Inr s \<and> r_soft_bot s = 1)
   \<and> np_index (sort [3, 1, 2 :: real])
        (int (length [3, 1, 2 :: real]) - py_round (real (length [3, 1, 2 :: real]) * 0.001))
       = Inl IndexError"
proof -
  have c: "[3, 1, 2 :: real] \<noteq> []" by simp
  have k: "py_round (real (length [3, 1, 2 :: real]) * 0.001) = 0"
    by (rule n_outliers_small) simp
  from k have k': "py_round (3 / 1000) = 0" by simp
  have "\<exists>s. snd (embedding_histogram [3, 1, 2]) = Inr s \<and> r_soft_bot s = 1"
    by (simp add: embedding_histogram_result [OF c] k')
  moreover have "np_index (sort [3, 1, 2 :: real])
        (int (length [3, 1, 2 :: real]) - py_round (real (length [3, 1, 2 :: real]) * 0.001))
       = Inl IndexError"
    unfolding k by (simp add: np_index_def)
  ultimately show ?thesis by blast
qed

text \<open>
  C10. For every non-empty flattened input of fewer than 500 elements \<open>k\<close> is 0, both
  reads succeed, and \<open>soft_top\<close> and \<open>soft_bot\<close> are both \<open>sorted[0]\<close>, the minimum
  element.
\<close>

theorem soft_bounds_collapse_below_500:
  "flattened \<noteq> [] \<Longrightarrow> length flattened < 500 \<Longrightarrow>
     py_round (real (length flattened) * 0.001) = 0
     \<and> (\<exists>s. snd (embedding_histogram flattened) = Inr s
            \<and> r_soft_top s = sort flattened ! 0 \<and> r_soft_bot s = sort flattened ! 0
            \<and> r_soft_top s = Min (set flattened) \<and> r_soft_bot s = Min (set flattened))"
proof -
  assume ne: "flattened \<noteq> []" and n: "length flattened < 500"
  from n have k: "py_round (real (length flattened) * 0.001) = 0"
    by (intro n_outliers_small) simp
  with ne show ?thesis
    by (simp add: embedding_histogram_result [OF ne] hd_sort_Min)
qed

theorem soft_bounds_collapse_below_500_witness:
  "[3, 1, 2 :: real] \<noteq> [] \<and> length [3, 1, 2 :: real] < 500
   \<and> py_round (real (length [3, 1, 2 :: real]) * 0.001) = 0
   \<and> (\<exists>s. snd (embedding_histogram [3, 1, 2]) = Inr s
          \<and> r_soft_top s = 1 \<and> r_soft_bot s = 1)"
proof -
  have a: "[3, 1, 2 :: real] \<noteq> []" and b: "length [3, 1, 2 :: real] < 500"
    by simp_all
  have "Min (set [3, 1, 2 :: real]) = 1" by simp
  with soft_bounds_collapse_below_500 [OF a b] a b show ?thesis
    by auto
qed



text \<open>
  C6 (amended). For a length-1 input \<open>[x]\<close> the component reports \<open>sigma = 0\<close> and
  \<open>top = bot = mu = x\<close>; no value lies strictly between the collapsed bounds, so the
  count is 0 and the reported containment percentage is 0.
\<close>

theorem single_element_statistics:
  "snd (embedding_histogram [x]) =
     Inr \<lparr>r_min = x, r_max = x, r_mu = x, r_sigma = 0, r_top = x, r_bot = x,
          r_soft_top = x, r_soft_bot = x, r_count = 0, r_pct = 0\<rparr>"
proof -
  have ne: "[x] \<noteq> []" by simp
  have k: "py_round (real (length [x]) * 0.001) = 0"
    by (rule n_outliers_small) simp
  have m: "np_mean [x] = x" by (simp add: np_mean_def)
  have sd: "np_std [x] = 0" by (simp add: np_std_def np_mean_def)
  show ?thesis
    unfolding embedding_histogram_result [OF ne] k m sd by simp
qed

text \<open>At the single value 5 the reported percentage is 0, not 100.\<close>

theorem single_element_statistics_counterexample:
  "\<exists>s. snd (embedding_histogram [5]) = Inr s
      \<and> r_sigma s = 0 \<and> r_top s = r_mu s \<and> r_bot s = r_mu s
      \<and> r_count s = 0 \<and> r_pct s = 0 \<and> r_pct s \<noteq> 100"
proof -
  have ne: "[5 :: real] \<noteq> []" by simp
  have k: "py_round (real (length [5 :: real]) * 0.001) = 0"
    by (rule n_outliers_small) simp
  have m: "np_mean [5] = 5" by (simp add: np_mean_def)
  have sd: "np_std [5] = 0" by (simp add: np_std_def np_mean_def)
  show ?thesis
    unfolding embedding_histogram_result [OF ne] k m sd by simp
qed

section \<open>Saving and showing\<close>

lemma output_calls_append: "output_calls (xs @ ys) = output_calls xs @ output_calls ys"
  by (simp add: output_calls_def)

lemma output_calls_save_or_show: "output_calls (save_or_show save_str) = save_or_show save_str"
  by (simp add: output_calls_def save_or_show_def Let_def split: option.splits)

lemma output_calls_attr_rows: "output_calls (fst (attr_rows pal token_words i bl_attrs)) = []"
proof (induction bl_attrs arbitrary: i)
  case Nil
  show ?case by (simp add: output_calls_def)
next
  case (Cons row rest)
  obtain bl_name attrs where row: "row = (bl_name, attrs)" by (cases row)
  from Cons.IH [of "Suc i"] show ?case
    by (simp add: row output_calls_def split_beta split: sum.splits)
qed

lemma output_calls_annotate_loop: "output_calls (fst (annotate_loop emb last_word i words)) = []"
proof (induction words arbitrary: last_word i)
  case Nil
  show ?case by (simp add: output_calls_def)
next
  case (Cons word words)
  from Cons.IH [of "Some word" "Suc i"] Cons.IH [of last_word "Suc i"] show ?case
    by (simp add: output_calls_def split_beta split: sum.splits)
qed

lemma output_calls_word_path_rows:
  "output_calls (fst (word_path_rows pca paths disc_paths wordss)) = []"
proof (induction pca paths disc_paths wordss rule: word_path_rows.induct)
  case (1 pca path paths disc_path disc_paths words wordss)
  show ?case
  proof (cases "words = []")
    case True
    then show ?thesis by (simp add: output_calls_def)
  next
    case False
    note ann = output_calls_annotate_loop [of "map pca disc_path" None 0 words]
    show ?thesis
    proof (cases "snd (annotate_loop (map pca disc_path) None 0 words)")
      case None
      with False have "output_calls (fst (word_path_rows pca paths disc_paths wordss)) = []"
        using "1.IH" by (auto simp: prod_eq_iff)
      with False None ann show ?thesis
        by (simp add: output_calls_def split_beta Let_def)
    next
      case (Some e)
      with False ann show ?thesis
        by (simp add: output_calls_def split_beta Let_def)
    qed
  qed
qed (simp_all add: output_calls_def)

lemma endswith_png_appended: "endswith (name @ ''.png'') ''.png''"
  by (simp add: endswith_def)

lemma split_slash_no_slash: "CHR ''/'' \<notin> set b \<Longrightarrow> split_slash b = [b]"
  by (induction b) auto

lemma split_slash_keeps_tail:
  assumes "CHR ''/'' \<notin> set b"
  shows "\<exists>q. q @ b \<in> set (split_slash (a @ b))"
proof (induction a)
  case Nil
  from assms have "[] @ b \<in> set (split_slash ([] @ b))"
    by (simp add: split_slash_no_slash)
  then show ?case by blast
next
  case (Cons c cs)
  then obtain q where q: "q @ b \<in> set (split_slash (cs @ b))" by blast
  show ?case
  proof (cases "c = CHR ''/''")
    case True
    with q have "q @ b \<in> set (split_slash ((c # cs) @ b))" by simp
    then show ?thesis by blast
  next
    case False
    show ?thesis
    proof (cases "split_slash (cs @ b)")
      case Nil
      with q show ?thesis by simp
    next
      case (Cons p ps)
      with q have "q @ b = p \<or> q @ b \<in> set ps" by simp
      then show ?thesis
      proof
        assume "q @ b = p"
        with False Cons have "(c # q) @ b \<in> set (split_slash ((c # cs) @ b))" by simp
        then show ?thesis by blast
      next
        assume "q @ b \<in> set ps"
        with False Cons have "q @ b \<in> set (split_slash ((c # cs) @ b))" by simp
        then show ?thesis by blast
      qed
    qed
  qed
qed

lemma endswith_split: "endswith s suf \<Longrightarrow> \<exists>a. s = a @ suf"
  unfolding endswith_def by (metis append_take_drop_id)

lemma parts_of_png_name:
  assumes "endswith s ''.png''"
  shows "parts (Path s) \<noteq> []"
proof -
  from assms obtain a where a: "s = a @ ''.png''"
    using endswith_split by blast
  have "CHR ''/'' \<notin> set ''.png''" by simp
  then obtain q where q: "q @ ''.png'' \<in> set (split_slash (a @ ''.png''))"
    using split_slash_keeps_tail by blast
  have "q @ ''.png'' \<noteq> []" and "q @ ''.png'' \<noteq> ''.''" by simp_all
  with q have "q @ ''.png'' \<in> set (filter (\<lambda>p. p \<noteq> [] \<and> p \<noteq> ''.'') (split_slash (a @ ''.png'')))"
    by simp
  then have "filter (\<lambda>p. p \<noteq> [] \<and> p \<noteq> ''.'') (split_slash (a @ ''.png'')) \<noteq> []"
    by (metis empty_iff list.set(1))
  then show ?thesis by (simp add: a Path_def)
qed

lemma figures_path: "Path ''figures'' = PosixPath False [''figures'']"
  by (simp add: Path_def)

lemma is_absolute_Path_append:
  "name \<noteq> [] \<Longrightarrow> is_absolute (Path (name @ ext)) = is_absolute (Path name)"
  by (cases name) (simp_all add: Path_def)

lemma relative_target:
  assumes "\<not> is_absolute (Path name')" and "endswith name' ''.png''"
  shows "path_div (Path ''figures'') (Path name') = PosixPath False (''figures'' # parts (Path name'))"
    and "under_directory ''figures'' (path_div (Path ''figures'') (Path name'))
          \<longleftrightarrow> ''..'' \<notin> set (parts (Path name'))"
proof -
  show t: "path_div (Path ''figures'') (Path name') = PosixPath False (''figures'' # parts (Path name'))"
    using assms(1) by (simp add: path_div_def figures_path)
  from assms(2) have "parts (Path name') \<noteq> []" by (rule parts_of_png_name)
  then show "under_directory ''figures'' (path_div (Path ''figures'') (Path name'))
          \<longleftrightarrow> ''..'' \<notin> set (parts (Path name'))"
    unfolding t by (simp add: under_directory_def)
qed

lemma absolute_target:
  assumes "is_absolute (Path name')"
  shows "path_div (Path ''figures'') (Path name') = Path name'"
    and "\<not> under_directory ''figures'' (path_div (Path ''figures'') (Path name'))"
  using assms by (simp_all add: path_div_def under_directory_def)

lemma save_or_show_name:
  "\<exists>name'. save_or_show (Some name) = [Savefig (path_div (Path ''figures'') (Path name'))]
      \<and> endswith name' ''.png''
      \<and> (endswith name ''.png'' \<longrightarrow> name' = name)
      \<and> (\<not> endswith name ''.png'' \<longrightarrow> name' = name @ ''.png'')
      \<and> (\<not> is_absolute (Path name) \<longrightarrow>
            path_div (Path ''figures'') (Path name')
              = PosixPath False (''figures'' # parts (Path name'))
            \<and> (under_directory ''figures'' (path_div (Path ''figures'') (Path name'))
                 \<longleftrightarrow> ''..'' \<notin> set (parts (Path name'))))
      \<and> (is_absolute (Path name) \<longrightarrow>
            path_div (Path ''figures'') (Path name') = Path name'
            \<and> \<not> under_directory ''figures'' (path_div (Path ''figures'') (Path name')))"
proof -
  define name' where "name' = (if endswith name ''.png'' then name else name @ ''.png'')"
  have s: "save_or_show (Some name) = [Savefig (path_div (Path ''figures'') (Path name'))]"
    by (simp add: save_or_show_def name'_def)
  have e: "endswith name' ''.png''"
    by (simp add: name'_def endswith_png_appended)
  have abs: "is_absolute (Path name') = is_absolute (Path name)"
  proof (cases "name = []")
    case True
    then show ?thesis by (simp add: name'_def endswith_def Path_def)
  next
    case False
    then show ?thesis by (simp add: name'_def is_absolute_Path_append)
  qed
  have r: "path_div (Path ''figures'') (Path name')
              = PosixPath False (''figures'' # parts (Path name'))
            \<and> (under_directory ''figures'' (path_div (Path ''figures'') (Path name'))
                 \<longleftrightarrow> ''..'' \<notin> set (parts (Path name')))"
    if "\<not> is_absolute (Path name)"
    using that relative_target [of name'] e abs by blast
  have a: "path_div (Path ''figures'') (Path name') = Path name'
            \<and> \<not> under_directory ''figures'' (path_div (Path ''figures'') (Path name'))"
    if "is_absolute (Path name)"
    using that absolute_target [of name'] abs by blast
  have "(endswith name ''.png'' \<longrightarrow> name' = name)
      \<and> (\<not> endswith name ''.png'' \<longrightarrow> name' = name @ ''.png'')"
    by (simp add: name'_def)
  with s e r a show ?thesis by blast
qed

lemma output_calls_visualize_attrs:
  "output_calls (fst (visualize_attrs bl_attrs token_words save_str))
     = (if snd (visualize_attrs bl_attrs token_words save_str) = None
        then save_or_show save_str else [])"
proof (cases "bl_attrs = []")
  case True
  then show ?thesis
    by (simp add: visualize_attrs_no_rows output_calls_def)
next
  case False
  show ?thesis
    unfolding fst_visualize_attrs [OF False] snd_visualize_attrs [OF False] output_calls_append
      output_calls_attr_rows output_calls_save_or_show
    by (simp add: output_calls_def output_calls_save_or_show [unfolded output_calls_def])
qed

lemma output_calls_visualize_word_path:
  "output_calls (fst (visualize_word_path word_path_emb word_path_discretized_emb word_path pca save_str))
     = (if snd (visualize_word_path word_path_emb word_path_discretized_emb word_path pca save_str) = None
        then save_or_show save_str else [])"
  unfolding fst_visualize_word_path snd_visualize_word_path output_calls_append
    output_calls_annotate_loop output_calls_save_or_show
  by (simp add: output_calls_def output_calls_save_or_show [unfolded output_calls_def])

lemma output_calls_visualize_word_paths:
  "output_calls (fst (visualize_word_paths word_path_emb word_path_discretized_emb word_path
       cloud_emb pca save_str))
     = (if snd (visualize_word_paths word_path_emb word_path_discretized_emb word_path
                  cloud_emb pca save_str) = None
        then save_or_show save_str else [])"
proof -
  let ?rows = "word_path_rows pca word_path_emb word_path_discretized_emb word_path"
  have s: "snd (visualize_word_paths word_path_emb word_path_discretized_emb word_path
                  cloud_emb pca save_str) = snd ?rows"
    by (simp add: visualize_word_paths_def Let_def split: prod.splits option.splits)
  have f: "fst (visualize_word_paths word_path_emb word_path_discretized_emb word_path
                  cloud_emb pca save_str)
      = [Subplots 1 1, Scatter (map pca cloud_emb)] @ fst ?rows
          @ (if snd ?rows = None
             then [Legend, Title, Set_xlabel, Set_ylabel, Tight_layout] @ save_or_show save_str
             else [])"
    by (simp add: visualize_word_paths_def Let_def split: prod.splits option.splits)
  show ?thesis
    unfolding f s output_calls_append output_calls_word_path_rows
    by (simp add: output_calls_def output_calls_save_or_show [unfolded output_calls_def])
qed

lemma output_calls_visualize_ablation_scores:
  "output_calls (fst (visualize_ablation_scores avg_scores save_str))
     = (if snd (visualize_ablation_scores avg_scores save_str) = None
        then save_or_show save_str else [])"
proof -
  have "filter is_output (map (\<lambda>(bl_name, scores). Plot scores) avg_scores) = []"
    by (induction avg_scores) (simp_all add: split_beta)
  then show ?thesis
    by (cases avg_scores)
      (simp_all add: visualize_ablation_scores_def output_calls_def split_beta
        output_calls_save_or_show [unfolded output_calls_def])
qed

lemma output_calls_visualize_word_path_table:
  "output_calls (fst (visualize_word_path_table word_path save_str))
     = (if snd (visualize_word_path_table word_path save_str) = None
        then save_or_show save_str else [])"
  by (simp add: visualize_word_path_table_def Let_def output_calls_def
      output_calls_save_or_show [unfolded output_calls_def] split: list.splits)

lemma embedding_histogram_empty: "embedding_histogram [] = ([], Inl IndexError)"
proof -
  have "np_index (sort ([] :: real list)) i = Inl IndexError" for i
    by (simp add: np_index_def Let_def)
  then show ?thesis
    unfolding embedding_histogram_def Let_def by (simp only: sum.case)
qed

lemma output_calls_embedding_histogram:
  "output_calls (fst (embedding_histogram flattened)) = (if flattened = [] then [] else [Show])"
proof (cases "flattened = []")
  case True
  have "np_index (sort flattened) i = Inl IndexError" for i
    using True by (simp add: np_index_def Let_def)
  then have "fst (embedding_histogram flattened) = []"
    unfolding embedding_histogram_def Let_def by (simp only: sum.case fst_conv)
  with True show ?thesis
    by (simp add: output_calls_def)
next
  case False
  then show ?thesis
    unfolding embedding_histogram_def Let_def
    by (simp only: soft_top_read [OF False] soft_bot_read [OF False] sum.case fst_conv)
      (simp add: output_calls_def)
qed

lemma output_calls_visualize_embedding_space:
  "output_calls (visualize_embedding_space word_emb pca interesting_embs)
     = [Savefig (Path ''figures/pca_embedding_space.png''), Show]"
proof -
  have "filter is_output (map (\<lambda>(word, emb). Annotate word (pca emb)) interesting_embs) = []"
    by (induction interesting_embs) (simp_all add: split_beta)
  then show ?thesis
    by (simp add: visualize_embedding_space_def output_calls_def)
qed

text \<open>
  C7 (amended). Five of the seven figure composers (\<^verbatim>\<open>visualize_attrs\<close>,
  \<^verbatim>\<open>visualize_ablation_scores\<close>, \<^verbatim>\<open>visualize_word_paths\<close>, \<^verbatim>\<open>visualize_word_path\<close>,
  \<^verbatim>\<open>visualize_word_path_table\<close>) take an optional save-target name. A call of one of
  them that completes shows the figure and saves nothing when the name is absent; when
  it is present the call shows nothing and saves once, to
  \<^verbatim>\<open>Path("figures") / Path(name')\<close>, where \<open>name'\<close> is the name itself if it ends in
  \<^verbatim>\<open>.png\<close> and the name followed by \<^verbatim>\<open>.png\<close> otherwise. For a relative name that
  file lies under the directory \<^verbatim>\<open>figures\<close> exactly when no component of \<open>name'\<close> is
  \<open>..\<close>; for an absolute name it is the absolute path itself, outside \<^verbatim>\<open>figures\<close>. A
  call that raises neither shows nor saves. \<^verbatim>\<open>embedding_histogram\<close> takes no name; on
  a non-empty input it only shows, and on an empty one it raises before any output.
  \<^verbatim>\<open>visualize_embedding_space\<close> takes no name and always saves to
  \<^verbatim>\<open>figures/pca_embedding_space.png\<close> and then shows.
\<close>

theorem save_target_by_composer:
  "output_calls (fst (visualize_attrs bl_attrs token_words save_str))
     = (if snd (visualize_attrs bl_attrs token_words save_str) = None
        then save_or_show save_str else [])
   \<and> output_calls (fst (visualize_ablation_scores avg_scores save_str))
     = (if snd (visualize_ablation_scores avg_scores save_str) = None
        then save_or_show save_str else [])
   \<and> output_calls (fst (visualize_word_paths paths_emb paths_disc paths_words cloud_emb pca save_str))
     = (if snd (visualize_word_paths paths_emb paths_disc paths_words cloud_emb pca save_str) = None
        then save_or_show save_str else [])
   \<and> output_calls (fst (visualize_word_path path_emb path_disc path_words pca save_str))
     = (if snd (visualize_word_path path_emb path_disc path_words pca save_str) = None
        then save_or_show save_str else [])
   \<and> output_calls (fst (visualize_word_path_table table_words save_str))
     = (if snd (visualize_word_path_table table_words save_str) = None
        then save_or_show save_str else [])
   \<and> save_or_show None = [Show]
   \<and> (\<exists>name'. save_or_show (Some name) = [Savefig (path_div (Path ''figures'') (Path name'))]
          \<and> endswith name' ''.png''
          \<and> (endswith name ''.png'' \<longrightarrow> name' = name)
          \<and> (\<not> endswith name ''.png'' \<longrightarrow> name' = name @ ''.png'')
          \<and> (\<not> is_absolute (Path name) \<longrightarrow>
                path_div (Path ''figures'') (Path name')
                  = PosixPath False (''figures'' # parts (Path name'))
                \<and> (under_directory ''figures'' (path_div (Path ''figures'') (Path name'))
                     \<longleftrightarrow> ''..'' \<notin> set (parts (Path name'))))
          \<and> (is_absolute (Path name) \<longrightarrow>
                path_div (Path ''figures'') (Path name') = Path name'
                \<and> \<not> under_directory ''figures'' (path_div (Path ''figures'') (Path name'))))
   \<and> output_calls (fst (embedding_histogram flattened)) = (if flattened = [] then [] else [Show])
   \<and> (flattened = [] \<longrightarrow> snd (embedding_histogram flattened) = Inl IndexError)
   \<and> output_calls (visualize_embedding_space word_emb pca interesting_embs)
     = [Savefig (Path ''figures/pca_embedding_space.png''), Show]"
proof -
  have "save_or_show None = [Show]"
    by (simp add: save_or_show_def)
  moreover have "snd (embedding_histogram flattened) = Inl IndexError" if "flattened = []"
    using that by (simp add: embedding_histogram_empty)
  ultimately show ?thesis
    using output_calls_visualize_attrs [of bl_attrs token_words save_str]
      output_calls_visualize_ablation_scores [of avg_scores save_str]
      output_calls_visualize_word_paths [of paths_emb paths_disc paths_words cloud_emb pca save_str]
      output_calls_visualize_word_path [of path_emb path_disc path_words pca save_str]
      output_calls_visualize_word_path_table [of table_words save_str]
      save_or_show_name [of name]
      output_calls_embedding_histogram [of flattened]
      output_calls_visualize_embedding_space [of word_emb pca interesting_embs]
    by blast
qed

theorem save_target_by_composer_witness:
  "endswith ''fig.png'' ''.png'' \<and> \<not> is_absolute (Path ''fig.png'')
   \<and> save_or_show (Some ''fig.png'') = [Savefig (PosixPath False [''figures'', ''fig.png''])]
   \<and> under_directory ''figures'' (PosixPath False [''figures'', ''fig.png''])
   \<and> \<not> endswith ''run/fig'' ''.png'' \<and> \<not> is_absolute (Path ''run/fig'')
   \<and> save_or_show (Some ''run/fig'') = [Savefig (PosixPath False [''figures'', ''run'', ''fig.png''])]
   \<and> under_directory ''figures'' (PosixPath False [''figures'', ''run'', ''fig.png''])
   \<and> is_absolute (Path ''/tmp/fig'')
   \<and> save_or_show (Some ''/tmp/fig'') = [Savefig (PosixPath True [''tmp'', ''fig.png''])]
   \<and> [] = ([] :: real list)
   \<and> snd (embedding_histogram []) = Inl IndexError
   \<and> snd (visualize_word_path_table [[''PAD'', ''good'']] (Some ''fig.png'')) = None
   \<and> output_calls (fst (visualize_word_path_table [[''PAD'', ''good'']] (Some ''fig.png'')))
       = [Savefig (PosixPath False [''figures'', ''fig.png''])]
   \<and> snd (visualize_word_path_table [[''PAD'', ''good'']] None) = None
   \<and> output_calls (fst (visualize_word_path_table [[''PAD'', ''good'']] None)) = [Show]"
proof -
  note name_part = save_target_by_composer [THEN conjunct2, THEN conjunct2, THEN conjunct2,
      THEN conjunct2, THEN conjunct2, THEN conjunct2, THEN conjunct1]
  note table_part = save_target_by_composer [THEN conjunct2, THEN conjunct2, THEN conjunct2,
      THEN conjunct2, THEN conjunct1]
  note empty_part = save_target_by_composer [THEN conjunct2, THEN conjunct2, THEN conjunct2,
      THEN conjunct2, THEN conjunct2, THEN conjunct2, THEN conjunct2, THEN conjunct2,
      THEN conjunct1]
  have a: "endswith ''fig.png'' ''.png''" and a': "\<not> is_absolute (Path ''fig.png'')"
    and b: "\<not> endswith ''run/fig'' ''.png''" and b': "\<not> is_absolute (Path ''run/fig'')"
    and c': "is_absolute (Path ''/tmp/fig'')" and c: "\<not> endswith ''/tmp/fig'' ''.png''"
    by (simp_all add: endswith_def Path_def)
  have p1: "parts (Path ''fig.png'') = [''fig.png'']"
    and p2: "parts (Path ''run/fig.png'') = [''run'', ''fig.png'']"
    and p3: "Path ''/tmp/fig.png'' = PosixPath True [''tmp'', ''fig.png'']"
    by (simp_all add: Path_def)
  from name_part [of "''fig.png''"] a a'
  have d: "save_or_show (Some ''fig.png'') = [Savefig (PosixPath False [''figures'', ''fig.png''])]
      \<and> under_directory ''figures'' (PosixPath False [''figures'', ''fig.png''])"
    using p1 by auto
  from name_part [of "''run/fig''"] b b'
  have e: "save_or_show (Some ''run/fig'')
        = [Savefig (PosixPath False [''figures'', ''run'', ''fig.png''])]
      \<and> under_directory ''figures'' (PosixPath False [''figures'', ''run'', ''fig.png''])"
    using p2 by auto
  from name_part [of "''/tmp/fig''"] c c'
  have f: "save_or_show (Some ''/tmp/fig'') = [Savefig (PosixPath True [''tmp'', ''fig.png''])]"
    using p3 by auto
  from empty_part [of "[]"]
  have g: "snd (embedding_histogram []) = Inl IndexError"
    by blast
  have h: "snd (visualize_word_path_table [[''PAD'', ''good'']] (Some ''fig.png'')) = None"
    and i: "snd (visualize_word_path_table [[''PAD'', ''good'']] None) = None"
    by (simp_all add: visualize_word_path_table_def Let_def)
  from table_part [of "[[''PAD'', ''good'']]" "Some ''fig.png''"] h d
  have j: "output_calls (fst (visualize_word_path_table [[''PAD'', ''good'']] (Some ''fig.png'')))
       = [Savefig (PosixPath False [''figures'', ''fig.png''])]"
    by simp
  from table_part [of "[[''PAD'', ''good'']]" None] i
    save_target_by_composer [THEN conjunct2, THEN conjunct2, THEN conjunct2,
      THEN conjunct2, THEN conjunct2, THEN conjunct1]
  have k: "output_calls (fst (visualize_word_path_table [[''PAD'', ''good'']] None)) = [Show]"
    by simp
  from a a' d b b' e c' f g h j i k show ?thesis
    by blast
qed

text \<open>
  \<^verbatim>\<open>visualize_embedding_space\<close> is given no save-target name, and still writes a file
  before it shows the figure. With the absolute name \<^verbatim>\<open>/tmp/fig\<close> the five composers
  write \<^verbatim>\<open>/tmp/fig.png\<close>, and with \<^verbatim>\<open>../fig\<close> they write \<^verbatim>\<open>figures/../fig.png\<close>:
  neither file is under \<^verbatim>\<open>figures\<close>.
\<close>

theorem save_target_by_composer_counterexample:
  "output_calls (visualize_embedding_space [] (\<lambda>v. (0, 0)) [])
     = [Savefig (Path ''figures/pca_embedding_space.png''), Show]
   \<and> output_calls (visualize_embedding_space [] (\<lambda>v. (0, 0)) []) \<noteq> [Show]
   \<and> save_or_show (Some ''/tmp/fig'') = [Savefig (PosixPath True [''tmp'', ''fig.png''])]
   \<and> \<not> under_directory ''figures'' (PosixPath True [''tmp'', ''fig.png''])
   \<and> save_or_show (Some ''../fig'') = [Savefig (PosixPath False [''figures'', ''..'', ''fig.png''])]
   \<and> \<not> under_directory ''figures'' (PosixPath False [''figures'', ''..'', ''fig.png''])"
  by (simp add: visualize_embedding_space_def output_calls_def save_or_show_def endswith_def
      Path_def path_div_def under_directory_def)

end
